theory Spec2Isabelle
  imports Complex_Main
begin

section \<open>The draggable slider of \<open>draggable-slider.js\<close>\<close>

text \<open>
  The class \<open>DraggableSlider\<close> wraps a container element \<open>elem\<close>, its track \<open>inner\<close> and
  the slide elements \<open>slides\<close>. Its methods read the live layout through
  \<open>getBoundingClientRect\<close>, read and write the inline style \<open>inner.style.left\<close>, and toggle
  the class \<open>active\<close> on the container and on the slides.

  A finite JavaScript number is modelled as a real, and slide indices as integers: the
  arithmetic of the handlers is exact, where IEEE doubles round, and \<open>-0\<close> is 0 (both
  print as \<open>0\<close>). What \<open>parseInt\<close> returns is modelled as the built-in computes it,
  rounding to a double included.
\<close>

subsection \<open>The inline style \<open>left\<close> of the track and \<open>parseInt\<close>\<close>

text \<open>
  A JavaScript string is a sequence of UTF-16 code units. \<open>utf16\<close> writes an ASCII text
  as one.
\<close>

type_synonym jsstring = "nat list"

definition utf16 :: "string \<Rightarrow> jsstring" where
  "utf16 cs = map of_char cs"

text \<open>
  \<open>inner.style.left\<close> is a string. The class only ever assigns \<open>x + 'px'\<close> to it, for a
  number \<open>x\<close>: for a finite \<open>x\<close> that value is \<open>Px x\<close>. Every other value is \<open>Raw t\<close>, with
  \<open>t\<close> the text: what the markup carried before the first assignment (the empty string
  when the style is not set), and the texts \<open>Infinitypx\<close>, \<open>-Infinitypx\<close> and \<open>NaNpx\<close>. The
  model stores what the class assigns; a host may refuse or rewrite a value.
\<close>

datatype css_left = Px real | Raw jsstring

text \<open>A JavaScript number: \<open>NaN\<close>, a finite value, or an infinity.\<close>

datatype jsnum = NaN | Num real | PosInfinity | NegInfinity

text \<open>
  The built-in \<open>parseInt(string)\<close>, called without a radix: skip leading white space and
  line terminators, read an optional sign, strip a \<open>0x\<close>/\<open>0X\<close> prefix (then the radix is
  16, otherwise 10), take the longest prefix of digits of that radix; no digit at all is
  \<open>NaN\<close>; otherwise the result is the double nearest the signed integer that the digits
  denote, an infinity when that is out of range. (The language lets an implementation
  replace decimal digits after the twentieth by zeros; the model reads them all.)
\<close>

definition isWhiteSpace :: "nat \<Rightarrow> bool" where
  "isWhiteSpace c =
     (c \<in> {0x09, 0x0A, 0x0B, 0x0C, 0x0D, 0x20, 0xA0, 0x1680, 0x2028, 0x2029, 0x202F, 0x205F,
            0x3000, 0xFEFF}
      \<or> (0x2000 \<le> c \<and> c \<le> 0x200A))"

definition digitValue :: "nat \<Rightarrow> nat \<Rightarrow> nat option" where
  "digitValue R c =
     (let v = (if 48 \<le> c \<and> c \<le> 57 then Some (c - 48)
               else if 97 \<le> c \<and> c \<le> 122 then Some (c - 87)
               else if 65 \<le> c \<and> c \<le> 90 then Some (c - 55)
               else None)
      in case v of None \<Rightarrow> None | Some d \<Rightarrow> if d < R then Some d else None)"

fun leadingDigits :: "nat \<Rightarrow> jsstring \<Rightarrow> nat list" where
  "leadingDigits R [] = []"
| "leadingDigits R (c # cs) =
     (case digitValue R c of None \<Rightarrow> [] | Some d \<Rightarrow> d # leadingDigits R cs)"

definition mathInt :: "nat \<Rightarrow> nat list \<Rightarrow> nat" where
  "mathInt R ds = foldl (\<lambda>a d. a * R + d) 0 ds"

text \<open>The sign is read from \<open>-\<close> (0x2D) or \<open>+\<close> (0x2B).\<close>

fun stripSign :: "jsstring \<Rightarrow> int \<times> jsstring" where
  "stripSign [] = (1, [])"
| "stripSign (c # cs) =
     (if c = 0x2D then (- 1, cs) else if c = 0x2B then (1, cs) else (1, c # cs))"

text \<open>The prefix is \<open>0\<close> (0x30) followed by \<open>x\<close> (0x78) or \<open>X\<close> (0x58).\<close>

fun stripPrefix :: "jsstring \<Rightarrow> nat \<times> jsstring" where
  "stripPrefix (a # b # cs) =
     (if a = 0x30 \<and> (b = 0x78 \<or> b = 0x58) then (16, cs) else (10, a # b # cs))"
| "stripPrefix cs = (10, cs)"

text \<open>
  The double nearest a natural number: itself below \<open>2^53\<close>; above, the number rounded
  to 53 significant bits, ties to the even significand; \<open>None\<close> when the result is
  \<open>2^1024\<close> or more, which is an infinity.
\<close>

function bitLength :: "nat \<Rightarrow> nat" where
  "bitLength n = (if n = 0 then 0 else Suc (bitLength (n div 2)))"
  by pat_completeness auto
termination
  by (relation "measure (\<lambda>n. n)") auto

definition toDouble :: "nat \<Rightarrow> nat option" where
  "toDouble m =
     (if m < 2 ^ 53 then Some m
      else
        (let e = bitLength m - 53;
             q = m div 2 ^ e;
             r = m mod 2 ^ e;
             q' = (if 2 ^ e < 2 * r \<or> (2 * r = 2 ^ e \<and> odd q) then q + 1 else q)
         in if 2 ^ 1024 \<le> q' * 2 ^ e then None else Some (q' * 2 ^ e)))"

definition numberValue :: "int \<Rightarrow> nat \<Rightarrow> jsnum" where
  "numberValue sign m =
     (case toDouble m of
        None \<Rightarrow> if sign < 0 then NegInfinity else PosInfinity
      | Some v \<Rightarrow> Num (real_of_int (sign * int v)))"

definition parseInt :: "jsstring \<Rightarrow> jsnum" where
  "parseInt inputString =
     (let (sign, S) = stripSign (dropWhile isWhiteSpace inputString);
          (R, S') = stripPrefix S;
          Z = leadingDigits R S'
      in if Z = [] then NaN else numberValue sign (mathInt R Z))"

text \<open>
  \<open>parseInt\<close> of the string \<open>x + 'px'\<close> for a finite \<open>x\<close>. Number-to-string conversion
  writes 0 as \<open>0\<close>. It writes \<open>x\<close> in positional notation when \<open>1e-6 \<le> |x| < 1e21\<close>: a
  minus sign when \<open>x < 0\<close>, the digits of the integer part of \<open>|x|\<close>, and a point and the
  fraction when there is one; \<open>parseInt\<close> reads the sign and the integer part and stops
  at the point or at \<open>p\<close>. Otherwise it writes \<open>x\<close> in exponent notation: the sign, the
  first significant digit, then a point or \<open>e\<close>; \<open>parseInt\<close> reads the sign and that one
  digit. The digits are those of the real \<open>x\<close>.
\<close>

definition leadDigit :: "real \<Rightarrow> nat" where
  "leadDigit y = nat \<lfloor>y / 10 powr real_of_int \<lfloor>log 10 y\<rfloor>\<rfloor>"

fun parseIntLeft :: "css_left \<Rightarrow> jsnum" where
  "parseIntLeft (Px x) =
     (if x = 0 then Num 0
      else if \<bar>x\<bar> < 1 / 10 ^ 6 \<or> 10 ^ 21 \<le> \<bar>x\<bar>
        then Num (if x < 0 then - real (leadDigit \<bar>x\<bar>) else real (leadDigit \<bar>x\<bar>))
      else numberValue (if x < 0 then - 1 else 1) (nat \<lfloor>\<bar>x\<bar>\<rfloor>))"
| "parseIntLeft (Raw t) = parseInt t"

text \<open>
  The arithmetic of a number and a finite number, and the string \<open>n + 'px'\<close>.
\<close>

fun jsMinus :: "jsnum \<Rightarrow> real \<Rightarrow> jsnum" where
  "jsMinus (Num a) b = Num (a - b)"
| "jsMinus n b = n"

fun jsPlus :: "jsnum \<Rightarrow> real \<Rightarrow> jsnum" where
  "jsPlus (Num a) b = Num (a + b)"
| "jsPlus n b = n"

fun toPx :: "jsnum \<Rightarrow> css_left" where
  "toPx (Num x) = Px x"
| "toPx NaN = Raw (utf16 ''NaNpx'')"
| "toPx PosInfinity = Raw (utf16 ''Infinitypx'')"
| "toPx NegInfinity = Raw (utf16 ''-Infinitypx'')"

subsection \<open>Layout, DOM state and instance fields\<close>

text \<open>
  \<open>getBoundingClientRect\<close> is an oracle of the host: the rectangle of the container and of
  each slide, of which the class reads \<open>left\<close> and \<open>width\<close>. It is live, so a layout is a
  function of the part of the DOM that the class mutates.
\<close>

record rect =
  rect_left :: real
  rect_width :: real

record geometry =
  sliderRect :: rect
  slideRect :: "nat \<Rightarrow> rect"

record dom =
  elem_active :: bool
  inner_left :: css_left
  slides_active :: "bool list"

type_synonym layout = "dom \<Rightarrow> geometry"

record slider = dom +
  activeSlide :: "int option"
  startSlide :: "int option"
  startX :: "real option"

definition dom_of :: "slider \<Rightarrow> dom" where
  "dom_of s = \<lparr>elem_active = elem_active s, inner_left = inner_left s,
     slides_active = slides_active s\<rparr>"

definition slideCount :: "slider \<Rightarrow> int" where
  "slideCount s = int (length (slides_active s))"

text \<open>
  A mouse event has \<open>pageX\<close> and no \<open>touches\<close>; a touch event has \<open>touches\<close> (the \<open>pageX\<close> of
  each touch point, in order) and no \<open>pageX\<close>. An absent property is \<open>None\<close>.
\<close>

record pointer_event =
  pageX :: "real option"
  touches :: "real list option"

text \<open>
  A handler either returns or lets a \<open>TypeError\<close> escape (reading a property of
  \<open>undefined\<close>); both carry the state as the handler left it.
\<close>

datatype 'a outcome = Done 'a | TypeError 'a

fun state_of :: "'a outcome \<Rightarrow> 'a" where
  "state_of (Done s) = s"
| "state_of (TypeError s) = s"

subsection \<open>The methods\<close>

text \<open>\<open>e.pageX || e.touches[0].pageX\<close>: an absent or zero \<open>pageX\<close> is falsy.\<close>

definition firstTouchX :: "pointer_event \<Rightarrow> real option" where
  "firstTouchX e = (case touches e of Some (t # ts) \<Rightarrow> Some t | _ \<Rightarrow> None)"

definition pointerX :: "pointer_event \<Rightarrow> real option" where
  "pointerX e =
     (case pageX e of
        Some x \<Rightarrow> if x \<noteq> 0 then Some x else firstTouchX e
      | None \<Rightarrow> firstTouchX e)"

definition getSlideOffset :: "layout \<Rightarrow> slider \<Rightarrow> int \<Rightarrow> real option" where
  "getSlideOffset L s slide =
     (if 0 \<le> slide \<and> slide < slideCount s then
        (let sliderR = sliderRect (L (dom_of s));
             slideR = slideRect (L (dom_of s)) (nat slide)
         in Some (rect_left slideR + rect_width slideR / 2
                  - (rect_left sliderR + rect_width sliderR / 2)))
      else None)"

function getActiveSlide_loop :: "layout \<Rightarrow> slider \<Rightarrow> int \<Rightarrow> int \<Rightarrow> int option" where
  "getActiveSlide_loop L s i res =
     (if i < slideCount s then
        (case getSlideOffset L s i of
           None \<Rightarrow> None
         | Some a \<Rightarrow>
             (case getSlideOffset L s (i - 1) of
                None \<Rightarrow> None
              | Some b \<Rightarrow> getActiveSlide_loop L s (i + 1) (if \<bar>a\<bar> < \<bar>b\<bar> then i else res)))
      else Some res)"
  by pat_completeness auto
termination
  by (relation "measure (\<lambda>(L, s, i, res). nat (slideCount s - i))") auto

definition getActiveSlide :: "layout \<Rightarrow> slider \<Rightarrow> int option" where
  "getActiveSlide L s = getActiveSlide_loop L s 1 0"

definition getInnerLeft :: "slider \<Rightarrow> jsnum" where
  "getInnerLeft s = (case parseIntLeft (inner_left s) of NaN \<Rightarrow> Num 0 | res \<Rightarrow> res)"

definition clampSlide :: "slider \<Rightarrow> int \<Rightarrow> int" where
  "clampSlide s slide =
     (let slide1 = (if slide < 0 then 0 else slide)
      in if slide1 > slideCount s - 1 then slideCount s - 1 else slide1)"

function setActiveSlide_loop :: "int option \<Rightarrow> nat \<Rightarrow> bool list \<Rightarrow> bool list" where
  "setActiveSlide_loop a i cls =
     (if i < length cls then setActiveSlide_loop a (Suc i) (cls[i := (Some (int i) = a)])
      else cls)"
  by pat_completeness auto
termination
  by (relation "measure (\<lambda>(a, i, cls). length cls - i)") auto

definition setActiveSlide :: "int \<Rightarrow> slider \<Rightarrow> slider" where
  "setActiveSlide slide s =
     (let s1 = s\<lparr>activeSlide := Some (clampSlide s slide)\<rparr>
      in s1\<lparr>slides_active := setActiveSlide_loop (activeSlide s1) 0 (slides_active s1)\<rparr>)"

definition moveToSlide :: "layout \<Rightarrow> int \<Rightarrow> slider \<Rightarrow> slider outcome" where
  "moveToSlide L slide s =
     (let s1 = setActiveSlide (clampSlide s slide) s
      in case activeSlide s1 of
           None \<Rightarrow> TypeError s1
         | Some a \<Rightarrow>
             (case getSlideOffset L s1 a of
                None \<Rightarrow> TypeError s1
              | Some off \<Rightarrow> Done (s1\<lparr>inner_left := toPx (jsMinus (getInnerLeft s1) off)\<rparr>)))"

definition moveToActiveSlide :: "layout \<Rightarrow> slider \<Rightarrow> slider outcome" where
  "moveToActiveSlide L s =
     (case activeSlide s of
        None \<Rightarrow> moveToSlide L 0 (s\<lparr>activeSlide := Some 0\<rparr>)
      | Some a \<Rightarrow> moveToSlide L a s)"

definition onStart :: "pointer_event \<Rightarrow> slider \<Rightarrow> slider outcome" where
  "onStart e s =
     (let s1 = s\<lparr>elem_active := True\<rparr>
      in case pointerX e of
           None \<Rightarrow> TypeError s1
         | Some x \<Rightarrow> Done (s1\<lparr>startX := Some x, startSlide := activeSlide s1\<rparr>))"

definition onEnd :: "layout \<Rightarrow> slider \<Rightarrow> slider outcome" where
  "onEnd L s =
     (let s1 = s\<lparr>elem_active := False\<rparr>
      in if startSlide s1 \<noteq> activeSlide s1 \<or> activeSlide s1 = Some 0
            \<or> activeSlide s1 = Some (slideCount s1 - 1)
         then moveToActiveSlide L s1 else Done s1)"

text \<open>
  In \<open>pos - this.startX\<close> a \<open>null\<close> start is the number 0. \<open>e.preventDefault()\<close> acts on the
  event only and is not part of the state.
\<close>

definition onMove :: "layout \<Rightarrow> pointer_event \<Rightarrow> slider \<Rightarrow> slider outcome" where
  "onMove L e s =
     (if \<not> elem_active s then Done s
      else case pointerX e of
             None \<Rightarrow> TypeError s
           | Some pos \<Rightarrow>
               (let dist = pos - (case startX s of None \<Rightarrow> 0 | Some x \<Rightarrow> x);
                    s1 = s\<lparr>startX := Some pos\<rparr>;
                    s2 = s1\<lparr>inner_left := toPx (jsPlus (getInnerLeft s1) dist)\<rparr>
                in case getActiveSlide L s2 of
                     None \<Rightarrow> TypeError s2
                   | Some a \<Rightarrow> Done (setActiveSlide a s2)))"

subsection \<open>The constructor and the delivery of events\<close>

text \<open>
  The page as the constructor queries it: \<open>document.getElementById\<close>, then
  \<open>querySelector\<close> on the container and \<open>querySelectorAll\<close> on the track, each with the
  selector \<open>'.' + class\<close>. A container carries whether its class list has \<open>active\<close>, a
  track its inline \<open>left\<close>, and each slide found whether its class list has \<open>active\<close>.
\<close>

record inner_node =
  style_left :: jsstring
  querySelectorAll :: "string \<Rightarrow> bool list"

record elem_node =
  classList_active :: bool
  querySelector :: "string \<Rightarrow> inner_node option"

type_synonym document = "string \<Rightarrow> elem_node option"

text \<open>
  What a call of \<open>new DraggableSlider(...)\<close> leaves behind: the warnings on the console,
  the event types that have a listener, and the instance fields (\<open>None\<close> when the
  constructor returned before initialising them).
\<close>

record widget =
  console :: "string list"
  listeners :: "string list"
  self :: "slider option"

definition InvalidSliderStructure :: "string \<Rightarrow> widget \<Rightarrow> widget" where
  "InvalidSliderStructure sliderID w =
     w\<lparr>console := console w @
       [''The DraggableSlider with ID '' @ sliderID
          @ '' will not work as it has some missing elements.'']\<rparr>"

definition boundEvents :: "string list" where
  "boundEvents = [''mousedown'', ''touchstart'', ''mouseleave'', ''mouseup'', ''touchend'',
     ''mousemove'', ''touchmove'', ''resize'']"

definition constructor ::
  "layout \<Rightarrow> document \<Rightarrow> string \<Rightarrow> string \<Rightarrow> string \<Rightarrow> widget outcome" where
  "constructor L doc sliderID innerClass slideClass =
     (let w = \<lparr>console = [], listeners = [], self = None\<rparr>
      in case doc sliderID of
           None \<Rightarrow> Done (InvalidSliderStructure sliderID w)
         | Some elem \<Rightarrow>
             (case querySelector elem (''.'' @ innerClass) of
                None \<Rightarrow> Done (InvalidSliderStructure sliderID w)
              | Some inner \<Rightarrow>
                  (let slides = querySelectorAll inner (''.'' @ slideClass)
                   in if length slides = 0 then Done (InvalidSliderStructure sliderID w)
                      else
                        (let s = \<lparr>elem_active = classList_active elem,
                                  inner_left = Raw (style_left inner),
                                  slides_active = slides,
                                  activeSlide = None, startSlide = None, startX = None\<rparr>;
                             w1 = w\<lparr>listeners := boundEvents, self := Some s\<rparr>
                         in case getActiveSlide L s of
                              None \<Rightarrow> TypeError w1
                            | Some a \<Rightarrow> Done (w1\<lparr>self := Some (setActiveSlide a s)\<rparr>)))))"

definition handler :: "layout \<Rightarrow> string \<Rightarrow> pointer_event \<Rightarrow> slider \<Rightarrow> slider outcome" where
  "handler L type e s =
     (if type = ''mousedown'' \<or> type = ''touchstart'' then onStart e s
      else if type = ''mouseleave'' \<or> type = ''mouseup'' \<or> type = ''touchend'' then onEnd L s
      else if type = ''mousemove'' \<or> type = ''touchmove'' then onMove L e s
      else if type = ''resize'' then moveToActiveSlide L s
      else Done s)"

definition dispatch :: "layout \<Rightarrow> string \<Rightarrow> pointer_event \<Rightarrow> widget \<Rightarrow> widget outcome" where
  "dispatch L type e w =
     (if type \<in> set (listeners w) then
        (case self w of
           None \<Rightarrow> Done w
         | Some s \<Rightarrow>
             (case handler L type e s of
                Done s' \<Rightarrow> Done (w\<lparr>self := Some s'\<rparr>)
              | TypeError s' \<Rightarrow> TypeError (w\<lparr>self := Some s'\<rparr>)))
      else Done w)"

text \<open>
  Everything that can be done to an instance after construction: the listeners run a
  handler, and the methods are public. Slide arguments are integers.
\<close>

datatype call =
  OnStart pointer_event
| OnMove pointer_event
| OnEnd
| MoveToActiveSlide
| MoveToSlide int
| SetActiveSlide int

fun perform :: "layout \<Rightarrow> call \<Rightarrow> slider \<Rightarrow> slider outcome" where
  "perform L (OnStart e) s = onStart e s"
| "perform L (OnMove e) s = onMove L e s"
| "perform L OnEnd s = onEnd L s"
| "perform L MoveToActiveSlide s = moveToActiveSlide L s"
| "perform L (MoveToSlide k) s = moveToSlide L k s"
| "perform L (SetActiveSlide k) s = Done (setActiveSlide k s)"

inductive reachable :: "slider \<Rightarrow> bool" where
  constructed:
    "constructor L doc sliderID innerClass slideClass = Done w \<Longrightarrow> self w = Some s
      \<Longrightarrow> reachable s"
| performed:
    "reachable s \<Longrightarrow> reachable (state_of (perform L c s))"

subsection \<open>Predicates and example inputs used in the statements\<close>

text \<open>
  A slider as the constructor leaves it: at least one slide, and an active index that is
  a slide index.
\<close>

definition valid :: "slider \<Rightarrow> bool" where
  "valid s =
     (0 < slideCount s \<and>
      (case activeSlide s of None \<Rightarrow> False | Some a \<Rightarrow> 0 \<le> a \<and> a < slideCount s))"

text \<open>
  The offset at which the host places the track: the pixels of \<open>x + 'px'\<close>, and 0 when no
  inline \<open>left\<close> is set. Other inline texts (\<open>2em\<close>, \<open>10%\<close>) depend on the page.
\<close>

fun used_left :: "css_left \<Rightarrow> real option" where
  "used_left (Px x) = Some x"
| "used_left (Raw t) = (if t = [] then Some 0 else None)"

text \<open>
  A stable layout: the distance of the centre of slide \<open>i\<close> from the centre of the
  container is \<open>c i\<close> plus the offset of the track, whatever else changes in the DOM.
\<close>

definition stable :: "layout \<Rightarrow> (nat \<Rightarrow> real) \<Rightarrow> bool" where
  "stable L c =
     (\<forall>d i x. used_left (inner_left d) = Some x \<longrightarrow>
        rect_left (slideRect (L d) i) + rect_width (slideRect (L d) i) / 2
          - (rect_left (sliderRect (L d)) + rect_width (sliderRect (L d)) / 2) = c i + x)"

text \<open>
  A row of slides of width 100, side by side from the left edge of a container of width
  \<open>w\<close> that stands at the left edge of the page, moved by the offset of the track.
\<close>

definition row_layout :: "real \<Rightarrow> layout" where
  "row_layout w d =
     \<lparr>sliderRect = \<lparr>rect_left = 0, rect_width = w\<rparr>,
      slideRect = (\<lambda>i. \<lparr>rect_left = 100 * real i
                               + (case used_left (inner_left d) of None \<Rightarrow> 0 | Some x \<Rightarrow> x),
                             rect_width = 100\<rparr>)\<rparr>"

text \<open>
  A page with one slider, \<open>id="slider"\<close>, whose track of class \<open>inner\<close> has no inline style
  and holds three slides of class \<open>slide\<close>, none of them marked active.
\<close>

definition demo_document :: document where
  "demo_document =
     (\<lambda>i. if i = ''slider'' then
             Some \<lparr>classList_active = False,
                   querySelector = (\<lambda>q. if q = ''.inner'' then
                       Some \<lparr>style_left = [],
                             querySelectorAll =
                               (\<lambda>q. if q = ''.slide'' then [False, False, False] else [])\<rparr>
                     else None)\<rparr>
           else None)"

definition demo_slider :: "css_left \<Rightarrow> int \<Rightarrow> slider" where
  "demo_slider l a =
     \<lparr>elem_active = False, inner_left = l, slides_active = map (\<lambda>i. int i = a) [0, 1, 2],
      activeSlide = Some a, startSlide = None, startX = None\<rparr>"

text \<open>
  Index \<open>r\<close> is the nearest of the slides \<open>0 .. m - 1\<close> with offsets \<open>off\<close>, and the first
  such: no slide is nearer the centre, and every earlier slide is farther.
\<close>

definition nearest_first :: "(int \<Rightarrow> real) \<Rightarrow> int \<Rightarrow> int \<Rightarrow> bool" where
  "nearest_first off m r =
     (0 \<le> r \<and> r < m \<and> (\<forall>j. 0 \<le> j \<and> j < m \<longrightarrow> \<bar>off r\<bar> \<le> \<bar>off j\<bar>)
      \<and> (\<forall>j. 0 \<le> j \<and> j < r \<longrightarrow> \<bar>off r\<bar> < \<bar>off j\<bar>))"

text \<open>
  Five slides that wrap onto two rows in a container of width 300 at the left edge of
  the page: three of width 100 in the first row, two of width 120 in the second.
\<close>

definition wrapped_layout :: layout where
  "wrapped_layout d =
     \<lparr>sliderRect = \<lparr>rect_left = 0, rect_width = 300\<rparr>,
      slideRect = (\<lambda>i. if i < 3 then \<lparr>rect_left = 100 * real i, rect_width = 100\<rparr>
                         else \<lparr>rect_left = 120 * real (i - 3), rect_width = 120\<rparr>)\<rparr>"

definition wrapped_slider :: slider where
  "wrapped_slider =
     \<lparr>elem_active = False, inner_left = Raw [],
      slides_active = [False, False, False, False, False],
      activeSlide = None, startSlide = None, startX = None\<rparr>"

text \<open>A mouse event and a touch event with one touch point, at a page position.\<close>

definition mouse_at :: "real \<Rightarrow> pointer_event" where
  "mouse_at x = \<lparr>pageX = Some x, touches = None\<rparr>"

definition touch_at :: "real \<Rightarrow> pointer_event" where
  "touch_at x = \<lparr>pageX = None, touches = Some [x]\<rparr>"

text \<open>A real truncated towards zero.\<close>

definition truncPx :: "real \<Rightarrow> int" where
  "truncPx x = (if x < 0 then - \<lfloor>- x\<rfloor> else \<lfloor>x\<rfloor>)"

text \<open>
  The decimal rendering of a natural number, as number-to-string conversion writes the
  integer part of a number: the code units of its decimal digits.
\<close>

definition digitChar :: "nat \<Rightarrow> nat" where
  "digitChar d = 48 + d"

function decimalDigits :: "nat \<Rightarrow> nat list" where
  "decimalDigits n = (if n < 10 then [n] else decimalDigits (n div 10) @ [n mod 10])"
  by pat_completeness auto
termination
  by (relation "measure (\<lambda>n. n)") auto

definition decimal :: "nat \<Rightarrow> jsstring" where
  "decimal n = map digitChar (decimalDigits n)"

section \<open>Properties\<close>

text \<open>
  The loop equations unfold themselves; they are used one step at a time.
\<close>

declare getActiveSlide_loop.simps [simp del]
declare setActiveSlide_loop.simps [simp del]
declare decimalDigits.simps [simp del]
declare bitLength.simps [simp del]

text \<open>The definitions that a run on a concrete input unfolds.\<close>

lemmas run_defs =
  demo_slider_def row_layout_def wrapped_layout_def wrapped_slider_def mouse_at_def touch_at_def
  moveToSlide_def moveToActiveSlide_def onStart_def onEnd_def onMove_def setActiveSlide_def
  clampSlide_def getSlideOffset_def getActiveSlide_def getInnerLeft_def slideCount_def
  dom_of_def pointerX_def firstTouchX_def parseInt_def numberValue_def toDouble_def Let_def
  getActiveSlide_loop.simps setActiveSlide_loop.simps

subsection \<open>The loops and the clamp\<close>

lemma setActiveSlide_loop_length [simp]:
  "length (setActiveSlide_loop a i cls) = length cls"
proof (induction a i cls rule: setActiveSlide_loop.induct)
  case (1 a i cls)
  show ?case
  proof (cases "i < length cls")
    case True
    then show ?thesis
      using "1.IH" by (subst setActiveSlide_loop.simps) simp
  next
    case False
    then show ?thesis by (subst setActiveSlide_loop.simps) simp
  qed
qed

lemma setActiveSlide_loop_nth:
  "j < length cls \<Longrightarrow>
     setActiveSlide_loop a i cls ! j = (if i \<le> j then Some (int j) = a else cls ! j)"
proof (induction a i cls arbitrary: j rule: setActiveSlide_loop.induct)
  case (1 a i cls)
  show ?case
  proof (cases "i < length cls")
    case True
    have "setActiveSlide_loop a i cls ! j
            = setActiveSlide_loop a (Suc i) (cls[i := (Some (int i) = a)]) ! j"
      using True by (subst setActiveSlide_loop.simps) simp
    also have "\<dots> = (if Suc i \<le> j then Some (int j) = a else (cls[i := (Some (int i) = a)]) ! j)"
      using "1.IH" [OF True, of j] "1.prems" by simp
    also have "\<dots> = (if i \<le> j then Some (int j) = a else cls ! j)"
      using True "1.prems" by (cases "i = j") auto
    finally show ?thesis .
  next
    case False
    then show ?thesis using "1.prems" by (subst setActiveSlide_loop.simps) simp
  qed
qed

lemma clampSlide_range:
  "0 < slideCount s \<Longrightarrow> 0 \<le> clampSlide s k \<and> clampSlide s k < slideCount s"
  by (simp add: clampSlide_def Let_def)

lemma clampSlide_idem [simp]: "clampSlide s (clampSlide s k) = clampSlide s k"
  by (simp add: clampSlide_def Let_def)

lemma clampSlide_in_range: "0 \<le> k \<Longrightarrow> k < slideCount s \<Longrightarrow> clampSlide s k = k"
  by (simp add: clampSlide_def Let_def)

lemma setActiveSlide_fields [simp]:
  "activeSlide (setActiveSlide k s) = Some (clampSlide s k)"
  "slideCount (setActiveSlide k s) = slideCount s"
  "inner_left (setActiveSlide k s) = inner_left s"
  "elem_active (setActiveSlide k s) = elem_active s"
  "startSlide (setActiveSlide k s) = startSlide s"
  "startX (setActiveSlide k s) = startX s"
  "length (slides_active (setActiveSlide k s)) = length (slides_active s)"
  by (simp_all add: setActiveSlide_def Let_def slideCount_def)

lemma getActiveSlide_loop_total:
  "1 \<le> i \<Longrightarrow> 0 \<le> res \<Longrightarrow> res < i \<Longrightarrow>
     \<exists>r. getActiveSlide_loop L s i res = Some r \<and> 0 \<le> r \<and> (r = res \<or> r < slideCount s)"
proof (induction L s i res rule: getActiveSlide_loop.induct)
  case (1 L s i res)
  show ?case
  proof (cases "i < slideCount s")
    case True
    obtain a where a: "getSlideOffset L s i = Some a"
      using True "1.prems" by (simp add: getSlideOffset_def Let_def)
    obtain b where b: "getSlideOffset L s (i - 1) = Some b"
      using True "1.prems" by (simp add: getSlideOffset_def Let_def)
    have step: "getActiveSlide_loop L s i res
                  = getActiveSlide_loop L s (i + 1) (if \<bar>a\<bar> < \<bar>b\<bar> then i else res)"
      using True a b by (subst getActiveSlide_loop.simps) simp
    have "\<exists>r. getActiveSlide_loop L s (i + 1) (if \<bar>a\<bar> < \<bar>b\<bar> then i else res) = Some r
             \<and> 0 \<le> r \<and> (r = (if \<bar>a\<bar> < \<bar>b\<bar> then i else res) \<or> r < slideCount s)"
      using "1.IH" [OF True a b] "1.prems" by simp
    then show ?thesis
      unfolding step using True by (auto split: if_splits)
  next
    case False
    then show ?thesis using "1.prems" by (subst getActiveSlide_loop.simps) simp
  qed
qed

lemma getActiveSlide_total:
  "\<exists>r. getActiveSlide L s = Some r \<and> 0 \<le> r \<and> (r = 0 \<or> r < slideCount s)"
  unfolding getActiveSlide_def using getActiveSlide_loop_total [of 1 0 L s] by simp


lemma setActiveSlide_nth:
  "j < length (slides_active s) \<Longrightarrow>
     slides_active (setActiveSlide k s) ! j = (int j = clampSlide s k)"
  by (simp add: setActiveSlide_def Let_def setActiveSlide_loop_nth)

subsection \<open>The active class after \<open>setActiveSlide\<close>\<close>

text \<open>
  Claim C5. On a slider with at least one slide, after \<open>setActiveSlide k\<close> for any integer
  \<open>k\<close> the clamped index is a valid slide index, it is the active index, the slide at a
  position carries \<open>active\<close> exactly when the position is the clamped index, whatever the
  slides carried before, and so exactly one slide carries it.
\<close>

theorem setActiveSlide_exactly_one_active:
  assumes "0 < slideCount s"
  shows "0 \<le> clampSlide s k \<and> clampSlide s k < slideCount s
     \<and> activeSlide (setActiveSlide k s) = Some (clampSlide s k)
     \<and> length (slides_active (setActiveSlide k s)) = length (slides_active s)
     \<and> (\<forall>j < length (slides_active s).
           slides_active (setActiveSlide k s) ! j = (int j = clampSlide s k))
     \<and> (\<exists>!j. j < length (slides_active (setActiveSlide k s))
           \<and> slides_active (setActiveSlide k s) ! j)"
proof -
  let ?c = "clampSlide s k"
  let ?s' = "setActiveSlide k s"
  have range: "0 \<le> ?c \<and> ?c < slideCount s"
    using assms by (rule clampSlide_range)
  have nth: "\<forall>j < length (slides_active s). slides_active ?s' ! j = (int j = ?c)"
    by (simp add: setActiveSlide_nth)
  have lt: "nat ?c < length (slides_active s)"
    using range unfolding slideCount_def by linarith
  have "slides_active ?s' ! nat ?c"
    using setActiveSlide_nth [OF lt, of k] range by simp
  then have "nat ?c < length (slides_active ?s') \<and> slides_active ?s' ! nat ?c"
    using lt by simp
  moreover have "j = nat ?c"
    if "j < length (slides_active ?s') \<and> slides_active ?s' ! j" for j
  proof -
    from that have "j < length (slides_active s)" and "slides_active ?s' ! j" by simp_all
    then have "int j = ?c" using setActiveSlide_nth [of j s k] by simp
    then show ?thesis by linarith
  qed
  ultimately have "\<exists>!j. j < length (slides_active ?s') \<and> slides_active ?s' ! j"
    by blast
  then show ?thesis
    using range nth by simp
qed

theorem setActiveSlide_exactly_one_active_witness:
  "0 < slideCount \<lparr>elem_active = False, inner_left = Raw [],
        slides_active = [True, True, False],
        activeSlide = Some 0, startSlide = None, startX = None\<rparr>
   \<and> activeSlide (setActiveSlide 7 \<lparr>elem_active = False, inner_left = Raw [],
        slides_active = [True, True, False],
        activeSlide = Some 0, startSlide = None, startX = None\<rparr>) = Some 2
   \<and> slides_active (setActiveSlide 7 \<lparr>elem_active = False, inner_left = Raw [],
        slides_active = [True, True, False],
        activeSlide = Some 0, startSlide = None, startX = None\<rparr>) = [False, False, True]"
proof -
  let ?s = "\<lparr>elem_active = False, inner_left = Raw [], slides_active = [True, True, False],
        activeSlide = Some 0, startSlide = None, startX = None\<rparr>"
  have h: "0 < slideCount ?s" by (simp add: slideCount_def)
  have c: "clampSlide ?s 7 = 2" by (simp add: clampSlide_def slideCount_def)
  note inst = setActiveSlide_exactly_one_active [OF h, of 7, unfolded c]
  have act: "activeSlide (setActiveSlide 7 ?s) = Some 2"
    using inst by blast
  have len: "length (slides_active (setActiveSlide 7 ?s)) = 3"
    using inst by simp
  have nth: "\<And>j. j < 3 \<Longrightarrow> slides_active (setActiveSlide 7 ?s) ! j = (int j = 2)"
    using inst by simp
  have "slides_active (setActiveSlide 7 ?s) = [False, False, True]"
  proof (rule nth_equalityI)
    show "length (slides_active (setActiveSlide 7 ?s)) = length [False, False, True]"
      using len by simp
  next
    fix j assume "j < length (slides_active (setActiveSlide 7 ?s))"
    then have j: "j < 3" using len by simp
    then have "j = 0 \<or> j = 1 \<or> j = 2" by arith
    then show "slides_active (setActiveSlide 7 ?s) ! j = [False, False, True] ! j"
      using nth [OF j] by auto
  qed
  then show ?thesis using h act by simp
qed

subsection \<open>Clamping of the slide argument\<close>

lemma slideCount_update [simp]:
  "slideCount (s\<lparr>elem_active := b\<rparr>) = slideCount s"
  "slideCount (s\<lparr>inner_left := l\<rparr>) = slideCount s"
  "slideCount (s\<lparr>activeSlide := a\<rparr>) = slideCount s"
  "slideCount (s\<lparr>startSlide := a\<rparr>) = slideCount s"
  "slideCount (s\<lparr>startX := x\<rparr>) = slideCount s"
  by (simp_all add: slideCount_def)

lemma state_of_moveToSlide:
  "activeSlide (state_of (moveToSlide L k s)) = Some (clampSlide s k)
   \<and> slideCount (state_of (moveToSlide L k s)) = slideCount s"
  by (simp add: moveToSlide_def Let_def split: option.splits)

lemma clampSlide_min_max: "clampSlide s k = min (max k 0) (slideCount s - 1)"
  by (simp add: clampSlide_def Let_def min_def max_def)

lemma setActiveSlide_loop_eq:
  "setActiveSlide_loop a 0 cls = map (\<lambda>j. Some (int j) = a) [0..<length cls]"
  by (rule nth_equalityI) (simp_all add: setActiveSlide_loop_nth)

lemma setActiveSlide_clamped: "setActiveSlide (clampSlide s k) s = setActiveSlide k s"
  by (simp add: setActiveSlide_def)

lemma moveToSlide_clamped: "moveToSlide L (clampSlide s k) s = moveToSlide L k s"
  by (simp add: moveToSlide_def)

lemma getInnerLeft_setActiveSlide [simp]:
  "getInnerLeft (setActiveSlide k s) = getInnerLeft s"
  by (simp add: getInnerLeft_def)

lemma moveToSlide_result:
  assumes "0 < slideCount s"
  shows "\<exists>off. getSlideOffset L (setActiveSlide k s) (clampSlide s k) = Some off
          \<and> moveToSlide L k s
              = Done ((setActiveSlide k s)\<lparr>inner_left := toPx (jsMinus (getInnerLeft s) off)\<rparr>)"
proof -
  have r: "0 \<le> clampSlide s k \<and> clampSlide s k < slideCount s"
    using assms by (rule clampSlide_range)
  then obtain off where off: "getSlideOffset L (setActiveSlide k s) (clampSlide s k) = Some off"
    by (simp add: getSlideOffset_def Let_def)
  have "moveToSlide L k s
          = Done ((setActiveSlide k s)\<lparr>inner_left := toPx (jsMinus (getInnerLeft s) off)\<rparr>)"
    using off by (simp add: moveToSlide_def setActiveSlide_clamped)
  then show ?thesis using off by blast
qed

text \<open>
  Claim C3. \<open>setActiveSlide\<close> and \<open>moveToSlide\<close> clamp their argument \<open>k\<close> to
  \<open>c = min (max k 0) (slideCount - 1)\<close>: the active index becomes \<open>c\<close>, the slides are marked
  for \<open>c\<close>, both calls return what the call with \<open>c\<close> returns, and on a slider with a
  slide \<open>moveToSlide\<close> returns normally with the track moved by the offset of slide \<open>c\<close>.
  With at least one slide \<open>c\<close> lies in \<open>[0, slideCount - 1]\<close>; an argument in that range is
  kept, one below 0 acts as 0 and one above \<open>slideCount - 1\<close> as \<open>slideCount - 1\<close>; so
  \<open>-5\<close> acts as \<open>0\<close> and \<open>slideCount + 5\<close> as \<open>slideCount - 1\<close>.
\<close>

theorem clamp_out_of_range_arguments:
  "activeSlide (setActiveSlide k s) = Some (min (max k 0) (slideCount s - 1))
   \<and> slides_active (setActiveSlide k s)
       = map (\<lambda>j. int j = min (max k 0) (slideCount s - 1)) [0..<length (slides_active s)]
   \<and> activeSlide (state_of (moveToSlide L k s)) = Some (min (max k 0) (slideCount s - 1))
   \<and> setActiveSlide k s = setActiveSlide (min (max k 0) (slideCount s - 1)) s
   \<and> moveToSlide L k s = moveToSlide L (min (max k 0) (slideCount s - 1)) s
   \<and> (0 < slideCount s \<longrightarrow>
         0 \<le> min (max k 0) (slideCount s - 1)
         \<and> min (max k 0) (slideCount s - 1) \<le> slideCount s - 1
         \<and> min (max k 0) (slideCount s - 1) = max 0 (min k (slideCount s - 1))
         \<and> (\<exists>off. getSlideOffset L (setActiveSlide k s) (min (max k 0) (slideCount s - 1))
                     = Some off
               \<and> moveToSlide L k s
                   = Done ((setActiveSlide k s)
                       \<lparr>inner_left := toPx (jsMinus (getInnerLeft s) off)\<rparr>)))
   \<and> (0 \<le> k \<and> k \<le> slideCount s - 1 \<longrightarrow>
         activeSlide (setActiveSlide k s) = Some k
         \<and> activeSlide (state_of (moveToSlide L k s)) = Some k)
   \<and> (k < 0 \<longrightarrow>
         setActiveSlide k s = setActiveSlide 0 s \<and> moveToSlide L k s = moveToSlide L 0 s)
   \<and> (slideCount s - 1 < k \<longrightarrow>
         setActiveSlide k s = setActiveSlide (slideCount s - 1) s
         \<and> moveToSlide L k s = moveToSlide L (slideCount s - 1) s)
   \<and> setActiveSlide (- 5) s = setActiveSlide 0 s
   \<and> setActiveSlide (slideCount s + 5) s = setActiveSlide (slideCount s - 1) s
   \<and> moveToSlide L (- 5) s = moveToSlide L 0 s
   \<and> moveToSlide L (slideCount s + 5) s = moveToSlide L (slideCount s - 1) s"
proof -
  let ?c = "min (max k 0) (slideCount s - 1)"
  have c: "clampSlide s k = ?c"
    by (rule clampSlide_min_max)
  have eq: "clampSlide s j = clampSlide s j' \<Longrightarrow>
      setActiveSlide j s = setActiveSlide j' s \<and> moveToSlide L j s = moveToSlide L j' s"
    for j j'
    by (simp add: setActiveSlide_def moveToSlide_def)
  have act: "activeSlide (setActiveSlide k s) = Some ?c"
    by (simp add: c)
  have marks: "slides_active (setActiveSlide k s)
       = map (\<lambda>j. int j = ?c) [0..<length (slides_active s)]"
    by (simp add: setActiveSlide_def setActiveSlide_loop_eq c)
  have mov: "activeSlide (state_of (moveToSlide L k s)) = Some ?c"
    using state_of_moveToSlide [of L k s] by (simp add: c)
  have same: "setActiveSlide k s = setActiveSlide ?c s \<and> moveToSlide L k s = moveToSlide L ?c s"
    by (rule eq) (simp add: clampSlide_min_max)
  have range: "0 < slideCount s \<longrightarrow>
         0 \<le> ?c \<and> ?c \<le> slideCount s - 1
         \<and> ?c = max 0 (min k (slideCount s - 1))
         \<and> (\<exists>off. getSlideOffset L (setActiveSlide k s) ?c = Some off
               \<and> moveToSlide L k s
                   = Done ((setActiveSlide k s)
                       \<lparr>inner_left := toPx (jsMinus (getInnerLeft s) off)\<rparr>))"
    using moveToSlide_result [of s L k] by (auto simp: c)
  have inside: "0 \<le> k \<and> k \<le> slideCount s - 1 \<longrightarrow>
         activeSlide (setActiveSlide k s) = Some k
         \<and> activeSlide (state_of (moveToSlide L k s)) = Some k"
    using act mov by auto
  have below: "k < 0 \<longrightarrow>
         setActiveSlide k s = setActiveSlide 0 s \<and> moveToSlide L k s = moveToSlide L 0 s"
    using eq [of k 0] by (simp add: clampSlide_min_max)
  have above: "slideCount s - 1 < k \<longrightarrow>
         setActiveSlide k s = setActiveSlide (slideCount s - 1) s
         \<and> moveToSlide L k s = moveToSlide L (slideCount s - 1) s"
    using eq [of k "slideCount s - 1"] by (simp add: clampSlide_min_max)
  have m5: "setActiveSlide (- 5) s = setActiveSlide 0 s
      \<and> moveToSlide L (- 5) s = moveToSlide L 0 s"
    by (rule eq) (simp add: clampSlide_min_max)
  have p5: "setActiveSlide (slideCount s + 5) s = setActiveSlide (slideCount s - 1) s
      \<and> moveToSlide L (slideCount s + 5) s = moveToSlide L (slideCount s - 1) s"
    by (rule eq) (simp add: clampSlide_min_max)
  show ?thesis
    using act marks mov same range inside below above m5 p5 by blast
qed

theorem clamp_out_of_range_arguments_witness:
  "0 < slideCount (demo_slider (Raw []) 1)
   \<and> activeSlide (setActiveSlide (- 5) (demo_slider (Raw []) 1)) = Some 0
   \<and> activeSlide (setActiveSlide 8 (demo_slider (Raw []) 1)) = Some 2
   \<and> slides_active (setActiveSlide 8 (demo_slider (Raw []) 1)) = [False, False, True]
   \<and> moveToSlide (row_layout 300) (- 5) (demo_slider (Raw []) 1)
       = Done (demo_slider (Px 100) 0)
   \<and> moveToSlide (row_layout 300) 8 (demo_slider (Raw []) 1)
       = Done (demo_slider (Px (- 100)) 2)"
proof -
  let ?s = "demo_slider (Raw []) 1"
  have n: "slideCount ?s = 3"
    by (simp add: demo_slider_def slideCount_def)
  have len: "length (slides_active ?s) = 3"
    by (simp add: demo_slider_def)
  note hi = clamp_out_of_range_arguments [of 8 ?s "row_layout 300", unfolded n len]
  note lo = clamp_out_of_range_arguments [of "- 5" ?s "row_layout 300", unfolded n len]
  have c_lo: "min (max (- 5 :: int) 0) (3 - 1) = 0" and c_hi: "min (max (8 :: int) 0) (3 - 1) = 2"
    by simp_all
  have m0: "moveToSlide (row_layout 300) 0 ?s = Done (demo_slider (Px 100) 0)"
    by (simp add: run_defs)
  have m2: "moveToSlide (row_layout 300) 2 ?s = Done (demo_slider (Px (- 100)) 2)"
    by (simp add: run_defs)
  have marks: "map (\<lambda>j. int j = 2) [0..<3] = [False, False, True]"
    by (simp add: upt_rec)
  have a_lo: "activeSlide (setActiveSlide (- 5) ?s) = Some 0"
    by (rule lo [THEN conjunct1, unfolded c_lo])
  have a_hi: "activeSlide (setActiveSlide 8 ?s) = Some 2"
    by (rule hi [THEN conjunct1, unfolded c_hi])
  have s_hi: "slides_active (setActiveSlide 8 ?s) = [False, False, True]"
    by (rule hi [THEN conjunct2, THEN conjunct1, unfolded c_hi marks])
  from lo have "moveToSlide (row_layout 300) (- 5) ?s
      = moveToSlide (row_layout 300) (min (max (- 5) 0) (3 - 1)) ?s"
    by blast
  then have m_lo: "moveToSlide (row_layout 300) (- 5) ?s = Done (demo_slider (Px 100) 0)"
    unfolding c_lo m0 .
  from hi have "moveToSlide (row_layout 300) 8 ?s
      = moveToSlide (row_layout 300) (min (max 8 0) (3 - 1)) ?s"
    by blast
  then have m_hi: "moveToSlide (row_layout 300) 8 ?s = Done (demo_slider (Px (- 100)) 2)"
    unfolding c_hi m2 .
  have "0 < slideCount ?s" by (simp add: n)
  then show ?thesis
    using a_lo a_hi s_hi m_lo m_hi by blast
qed

subsection \<open>The active index after construction\<close>

lemma valid_iff:
  "valid s \<longleftrightarrow> 0 < slideCount s \<and> (\<exists>a. activeSlide s = Some a \<and> 0 \<le> a \<and> a < slideCount s)"
  by (simp add: valid_def split: option.splits)

lemma valid_cong:
  "activeSlide s' = activeSlide s \<Longrightarrow> slideCount s' = slideCount s \<Longrightarrow> valid s' = valid s"
  by (simp add: valid_iff)

lemma valid_setActiveSlide: "0 < slideCount s \<Longrightarrow> valid (setActiveSlide k s)"
  using clampSlide_range [of s k] by (simp add: valid_iff)

lemma valid_moveToSlide: "0 < slideCount s \<Longrightarrow> valid (state_of (moveToSlide L k s))"
  using clampSlide_range [of s k] state_of_moveToSlide [of L k s] by (simp add: valid_iff)

lemma valid_moveToActiveSlide: "valid s \<Longrightarrow> valid (state_of (moveToActiveSlide L s))"
proof -
  assume "valid s"
  then obtain a where "activeSlide s = Some a" and "0 < slideCount s"
    by (auto simp: valid_iff)
  then show ?thesis
    by (simp add: moveToActiveSlide_def valid_moveToSlide)
qed

lemma valid_onStart: "valid s \<Longrightarrow> valid (state_of (onStart e s))"
proof -
  assume v: "valid s"
  have "activeSlide (state_of (onStart e s)) = activeSlide s
        \<and> slideCount (state_of (onStart e s)) = slideCount s"
    by (simp add: onStart_def Let_def split: option.splits)
  then show ?thesis using v valid_cong by blast
qed

lemma valid_onEnd: "valid s \<Longrightarrow> valid (state_of (onEnd L s))"
proof -
  assume v: "valid s"
  have v': "valid (s\<lparr>elem_active := False\<rparr>)"
    using v by (simp add: valid_iff)
  show ?thesis
    using v' valid_moveToActiveSlide [OF v', of L] by (simp add: onEnd_def Let_def)
qed

lemma valid_onMove: "valid s \<Longrightarrow> valid (state_of (onMove L e s))"
proof -
  assume v: "valid s"
  show ?thesis
  proof (cases "elem_active s")
    case False
    then show ?thesis using v by (simp add: onMove_def)
  next
    case True
    show ?thesis
    proof (cases "pointerX e")
      case None
      then show ?thesis using v True by (simp add: onMove_def)
    next
      case (Some pos)
      define s2 where
        "s2 = s\<lparr>startX := Some pos,
                inner_left := toPx (jsPlus (getInnerLeft (s\<lparr>startX := Some pos\<rparr>))
                  (pos - (case startX s of None \<Rightarrow> 0 | Some x \<Rightarrow> x)))\<rparr>"
      have v2: "valid s2"
        using v by (simp add: s2_def valid_iff)
      have res: "onMove L e s =
          (case getActiveSlide L s2 of None \<Rightarrow> TypeError s2
           | Some a \<Rightarrow> Done (setActiveSlide a s2))"
        unfolding s2_def using True Some by (simp add: onMove_def Let_def)
      show ?thesis
      proof (cases "getActiveSlide L s2")
        case None
        then show ?thesis using res v2 by simp
      next
        case (Some a)
        then show ?thesis
          using res v2 valid_setActiveSlide [of s2 a] by (simp add: valid_iff)
      qed
    qed
  qed
qed

lemma valid_perform: "valid s \<Longrightarrow> valid (state_of (perform L c s))"
proof (cases c)
  case (SetActiveSlide k)
  assume "valid s"
  then show ?thesis
    using SetActiveSlide valid_setActiveSlide [of s k] by (simp add: valid_iff)
next
  case (MoveToSlide k)
  assume "valid s"
  then show ?thesis
    using MoveToSlide valid_moveToSlide [of s L k] by (simp add: valid_iff)
qed (simp_all add: valid_onStart valid_onMove valid_onEnd valid_moveToActiveSlide)

lemma valid_constructed:
  assumes "constructor L doc sliderID innerClass slideClass = Done w" and "self w = Some s"
  shows "valid s"
proof -
  from assms obtain s0 a where "s = setActiveSlide a s0" and "0 < slideCount s0"
    by (auto simp: constructor_def Let_def InvalidSliderStructure_def slideCount_def
        split: option.splits if_splits)
  then show ?thesis by (simp add: valid_setActiveSlide)
qed

lemma reachable_valid: "reachable s \<Longrightarrow> valid s"
  by (induction rule: reachable.induct) (auto intro: valid_constructed valid_perform)

text \<open>
  When the three lookups succeed the constructor returns normally, with every listener
  registered and the fields initialised: reachable states exist for every such page.
\<close>

lemma constructor_found:
  assumes "doc i = Some elem" and "querySelector elem (''.'' @ ic) = Some inner"
    and "querySelectorAll inner (''.'' @ sc) \<noteq> []"
  shows "\<exists>s. constructor L doc i ic sc
              = Done \<lparr>console = [], listeners = boundEvents, self = Some s\<rparr>
            \<and> reachable s"
proof -
  let ?s0 = "\<lparr>elem_active = classList_active elem, inner_left = Raw (style_left inner),
               slides_active = querySelectorAll inner (''.'' @ sc),
               activeSlide = None, startSlide = None, startX = None\<rparr>"
  obtain a where a: "getActiveSlide L ?s0 = Some a"
    using getActiveSlide_total [of L ?s0] by blast
  have c: "constructor L doc i ic sc
        = Done \<lparr>console = [], listeners = boundEvents, self = Some (setActiveSlide a ?s0)\<rparr>"
    using assms a by (simp add: constructor_def Let_def)
  have "reachable (setActiveSlide a ?s0)"
    by (rule reachable.constructed [OF c]) simp
  then show ?thesis using c by blast
qed

text \<open>
  Claim C10. A state is reachable when a successful constructor call returned it, or a
  handler or public method (with an integer slide argument, under any layout, returning
  or throwing) led to it from a reachable state. In every reachable state the slider has
  a slide, the active index is set and is a slide index, and \<open>moveToActiveSlide\<close> is
  \<open>moveToSlide\<close> of that index: its branch for an unset index is not taken.
\<close>

theorem activeSlide_never_null_again:
  assumes "reachable s"
  shows "0 < slideCount s
     \<and> (\<exists>a. activeSlide s = Some a \<and> 0 \<le> a \<and> a < slideCount s
           \<and> (\<forall>L. moveToActiveSlide L s = moveToSlide L a s))"
proof -
  from assms have "valid s" by (rule reachable_valid)
  then obtain a where a: "activeSlide s = Some a" "0 \<le> a" "a < slideCount s"
    and n: "0 < slideCount s"
    by (auto simp: valid_iff)
  have "\<forall>L. moveToActiveSlide L s = moveToSlide L a s"
    using a by (simp add: moveToActiveSlide_def)
  then show ?thesis using a n by simp
qed



text \<open>
  The page of three slides of width 100 in a container of width 300: the constructor
  finds slide 1 nearest the centre.
\<close>

lemma demo_constructed:
  "constructor (row_layout 300) demo_document ''slider'' ''inner'' ''slide''
     = Done \<lparr>console = [], listeners = boundEvents, self = Some (demo_slider (Raw []) 1)\<rparr>"
  by (simp add: constructor_def demo_document_def demo_slider_def row_layout_def Let_def
      getActiveSlide_def getActiveSlide_loop.simps getSlideOffset_def slideCount_def dom_of_def
      setActiveSlide_def clampSlide_def setActiveSlide_loop.simps)

lemma demo_moved:
  "perform (row_layout 300) (MoveToSlide 9) (demo_slider (Raw []) 1)
     = Done (demo_slider (Px (- 100)) 2)"
  by (simp add: moveToSlide_def demo_slider_def row_layout_def Let_def
      getSlideOffset_def slideCount_def dom_of_def getInnerLeft_def parseInt_def
      setActiveSlide_def clampSlide_def setActiveSlide_loop.simps)

theorem activeSlide_never_null_again_witness:
  "reachable (demo_slider (Px (- 100)) 2)
   \<and> activeSlide (demo_slider (Px (- 100)) 2) = Some 2
   \<and> moveToActiveSlide (row_layout 300) (demo_slider (Px (- 100)) 2)
       = moveToSlide (row_layout 300) 2 (demo_slider (Px (- 100)) 2)"
proof -
  have r0: "reachable (demo_slider (Raw []) 1)"
    by (rule reachable.constructed [OF demo_constructed]) simp
  have r: "reachable (demo_slider (Px (- 100)) 2)"
    using reachable.performed [OF r0, of "row_layout 300" "MoveToSlide 9"]
    by (simp only: demo_moved state_of.simps)
  have a: "activeSlide (demo_slider (Px (- 100)) 2) = Some 2"
    by (simp add: demo_slider_def)
  show ?thesis
    using r a activeSlide_never_null_again [OF r] by auto
qed

subsection \<open>Construction on a page that lacks the elements\<close>

text \<open>
  Claim C2. When the container id is not on the page, or the container has no element
  for the track selector, or the track has no element for the slide selector, the
  constructor returns normally; it has written one warning to the console, the message
  that names the container id; no listener is registered and no instance field is
  initialised; and the delivery of any event, under any layout, then changes nothing.
\<close>

theorem constructor_missing_elements:
  assumes "doc sliderID = None
     \<or> (\<exists>elem. doc sliderID = Some elem
           \<and> (querySelector elem (''.'' @ innerClass) = None
               \<or> (\<exists>inner. querySelector elem (''.'' @ innerClass) = Some inner
                     \<and> length (querySelectorAll inner (''.'' @ slideClass)) = 0)))"
  shows "constructor L doc sliderID innerClass slideClass
       = Done \<lparr>console = [''The DraggableSlider with ID '' @ sliderID
                            @ '' will not work as it has some missing elements.''],
               listeners = [], self = None\<rparr>
     \<and> (\<forall>L' type e.
           dispatch L' type e
             \<lparr>console = [''The DraggableSlider with ID '' @ sliderID
                            @ '' will not work as it has some missing elements.''],
              listeners = [], self = None\<rparr>
           = Done \<lparr>console = [''The DraggableSlider with ID '' @ sliderID
                            @ '' will not work as it has some missing elements.''],
                   listeners = [], self = None\<rparr>)"
proof
  show "constructor L doc sliderID innerClass slideClass
       = Done \<lparr>console = [''The DraggableSlider with ID '' @ sliderID
                            @ '' will not work as it has some missing elements.''],
               listeners = [], self = None\<rparr>"
    using assms
    by (auto simp: constructor_def InvalidSliderStructure_def Let_def)
next
  show "\<forall>L' type e.
           dispatch L' type e
             \<lparr>console = [''The DraggableSlider with ID '' @ sliderID
                            @ '' will not work as it has some missing elements.''],
              listeners = [], self = None\<rparr>
           = Done \<lparr>console = [''The DraggableSlider with ID '' @ sliderID
                            @ '' will not work as it has some missing elements.''],
                   listeners = [], self = None\<rparr>"
    by (simp add: dispatch_def)
qed

theorem constructor_missing_elements_witness:
  "demo_document ''gallery'' = None
   \<and> constructor (row_layout 300) demo_document ''gallery'' ''inner'' ''slide''
       = Done \<lparr>console =
                 [''The DraggableSlider with ID gallery will not work as it has some missing elements.''],
               listeners = [], self = None\<rparr>
   \<and> dispatch (row_layout 300) ''mousedown'' \<lparr>pageX = Some 100, touches = None\<rparr>
        \<lparr>console =
           [''The DraggableSlider with ID gallery will not work as it has some missing elements.''],
         listeners = [], self = None\<rparr>
       = Done \<lparr>console =
                 [''The DraggableSlider with ID gallery will not work as it has some missing elements.''],
               listeners = [], self = None\<rparr>"
proof -
  have h: "demo_document ''gallery'' = None"
    by (simp add: demo_document_def)
  show ?thesis
    using h constructor_missing_elements [of demo_document "''gallery''" "''inner''" "''slide''"
        "row_layout 300", OF disjI1, OF h]
    by simp
qed

subsection \<open>\<open>getInnerLeft\<close> and the integer it parses\<close>

text \<open>
  A text that is white space, an optional sign and then decimal digits, followed by
  nothing or by a code unit that is no decimal digit (and not the \<open>0x\<close> prefix), parses
  to the number the digits denote. A text that has no digit there is \<open>NaN\<close>.
\<close>

lemma digitValue_digitChar: "d < 10 \<Longrightarrow> digitValue 10 (digitChar d) = Some d"
  by (simp add: digitValue_def digitChar_def)

lemma digitChar_plain:
  assumes "d < 10"
  shows "\<not> isWhiteSpace (digitChar d)" and "digitChar d \<noteq> 0x2D" and "digitChar d \<noteq> 0x2B"
    and "digitChar d \<noteq> 0x78" and "digitChar d \<noteq> 0x58"
  using assms by (simp_all add: isWhiteSpace_def digitChar_def)

lemma leadingDigits_digits:
  assumes "list_all (\<lambda>d. d < 10) ds" and "rest = [] \<or> digitValue 10 (hd rest) = None"
  shows "leadingDigits 10 (map digitChar ds @ rest) = ds"
  using assms
proof (induction ds)
  case Nil
  then show ?case by (cases rest) auto
next
  case (Cons d ds)
  then show ?case by (simp add: digitValue_digitChar)
qed

lemma stripPrefix_digits:
  assumes "ds \<noteq> []" and "list_all (\<lambda>d. d < 10) ds"
    and "\<not> (ds = [0] \<and> rest \<noteq> [] \<and> (hd rest = 0x78 \<or> hd rest = 0x58))"
  shows "stripPrefix (map digitChar ds @ rest) = (10, map digitChar ds @ rest)"
proof (cases ds)
  case Nil
  then show ?thesis using assms(1) by simp
next
  case (Cons d ds')
  note ds = Cons
  show ?thesis
  proof (cases ds')
    case Nil
    show ?thesis
    proof (cases rest)
      case Nil
      then show ?thesis using ds \<open>ds' = []\<close> by simp
    next
      case (Cons c r)
      then show ?thesis
        using ds \<open>ds' = []\<close> assms(3) by (auto simp: digitChar_def)
    qed
  next
    case (Cons d2 ds'')
    then have "d2 < 10" using assms(2) ds by simp
    then show ?thesis
      using ds Cons digitChar_plain(4,5) [of d2] by simp
  qed
qed

lemma dropWhile_white:
  assumes "list_all isWhiteSpace ws" and "\<not> isWhiteSpace c"
  shows "dropWhile isWhiteSpace (ws @ c # cs) = c # cs"
  using assms by (induction ws) auto

lemma parseInt_unsigned:
  assumes "ds \<noteq> []" and "list_all (\<lambda>d. d < 10) ds"
    and "rest = [] \<or> digitValue 10 (hd rest) = None"
    and "\<not> (ds = [0] \<and> rest \<noteq> [] \<and> (hd rest = 0x78 \<or> hd rest = 0x58))"
  shows "(let (R, S') = stripPrefix (map digitChar ds @ rest); Z = leadingDigits R S'
          in if Z = [] then NaN else numberValue sign (mathInt R Z))
         = numberValue sign (mathInt 10 ds)"
  using assms by (simp add: stripPrefix_digits leadingDigits_digits)

lemma parseInt_digits:
  assumes "list_all isWhiteSpace ws"
    and "sg = [] \<and> sign = 1 \<or> sg = [0x2B] \<and> sign = 1 \<or> sg = [0x2D] \<and> sign = - 1"
    and "ds \<noteq> []" and "list_all (\<lambda>d. d < 10) ds"
    and "rest = [] \<or> digitValue 10 (hd rest) = None"
    and "\<not> (ds = [0] \<and> rest \<noteq> [] \<and> (hd rest = 0x78 \<or> hd rest = 0x58))"
  shows "parseInt (ws @ sg @ map digitChar ds @ rest) = numberValue sign (mathInt 10 ds)"
proof -
  obtain d ds' where ds: "ds = d # ds'" "d < 10"
    using assms(3,4) by (cases ds) auto
  let ?body = "map digitChar ds @ rest"
  have body: "?body = digitChar d # (map digitChar ds' @ rest)"
    by (simp add: ds)
  have "stripSign (dropWhile isWhiteSpace (ws @ sg @ ?body)) = (sign, ?body)"
  proof -
    consider "sg = []" "sign = 1" | "sg = [0x2B]" "sign = 1" | "sg = [0x2D]" "sign = - 1"
      using assms(2) by blast
    then show ?thesis
    proof cases
      case 1
      have "dropWhile isWhiteSpace (ws @ ?body) = ?body"
        unfolding body using assms(1) digitChar_plain(1) [OF ds(2)] by (rule dropWhile_white)
      then show ?thesis
        using 1 digitChar_plain(2,3) [OF ds(2)] by (simp add: body)
    next
      case 2
      have "dropWhile isWhiteSpace (ws @ 0x2B # ?body) = 0x2B # ?body"
        using assms(1) by (rule dropWhile_white) (simp add: isWhiteSpace_def)
      then show ?thesis using 2 by simp
    next
      case 3
      have "dropWhile isWhiteSpace (ws @ 0x2D # ?body) = 0x2D # ?body"
        using assms(1) by (rule dropWhile_white) (simp add: isWhiteSpace_def)
      then show ?thesis using 3 by simp
    qed
  qed
  then show ?thesis
    using parseInt_unsigned [OF assms(3-6), of sign] by (simp add: parseInt_def)
qed



text \<open>Below \<open>2^53\<close> every integer is a double.\<close>

lemma toDouble_small: "m < 2 ^ 53 \<Longrightarrow> toDouble m = Some m"
  by (simp add: toDouble_def)

lemma numberValue_small: "m < 2 ^ 53 \<Longrightarrow> numberValue sign m = Num (real_of_int (sign * int m))"
  by (simp add: numberValue_def toDouble_small)






lemma bitLength_bounds: "0 < m \<Longrightarrow> 2 ^ (bitLength m - 1) \<le> m \<and> m < 2 ^ bitLength m"
proof (induction m rule: bitLength.induct)
  case (1 n)
  show ?case
  proof (cases "n div 2 = 0")
    case True
    then have "n = 1" using "1.prems" by linarith
    then show ?thesis
      by (simp add: bitLength.simps)
  next
    case False
    then have ih: "2 ^ (bitLength (n div 2) - 1) \<le> n div 2 \<and> n div 2 < 2 ^ bitLength (n div 2)"
      using "1.IH" "1.prems" by simp
    have pos: "0 < bitLength (n div 2)"
      using False by (subst bitLength.simps) simp
    have bl: "bitLength n = Suc (bitLength (n div 2))"
      using "1.prems" by (subst bitLength.simps) simp
    have p1: "(2::nat) ^ bitLength (n div 2) = 2 * 2 ^ (bitLength (n div 2) - 1)"
      using pos by (cases "bitLength (n div 2)") simp_all
    have p2: "bitLength n - 1 = bitLength (n div 2)"
      by (simp add: bl)
    have n: "2 * (n div 2) \<le> n" "n < 2 * (n div 2) + 2"
      by linarith+
    have "2 ^ bitLength (n div 2) \<le> n"
      using ih n(1) unfolding p1 by linarith
    moreover have "n < 2 * 2 ^ bitLength (n div 2)"
      using ih n(2) by linarith
    ultimately show ?thesis
      by (simp add: bl)
  qed
qed

text \<open>
  Above \<open>2^53\<close> the result of \<open>toDouble\<close> is a double, a significand of 53 bits times a
  power of two, and no double is nearer the number: it is within half a unit of the last
  place, and on a tie the significand is even.
\<close>

lemma toDouble_nearest:
  assumes "2 ^ 53 \<le> m" and "toDouble m = Some v"
  shows "\<exists>q'. v = q' * 2 ^ (bitLength m - 53) \<and> 2 ^ 52 \<le> q' \<and> q' \<le> 2 ^ 53
           \<and> 2 * \<bar>int v - int m\<bar> \<le> 2 ^ (bitLength m - 53)
           \<and> (2 * \<bar>int v - int m\<bar> = 2 ^ (bitLength m - 53) \<longrightarrow> even q')"
proof -
  define e where "e = bitLength m - 53"
  define q where "q = m div 2 ^ e"
  define r where "r = m mod 2 ^ e"
  define q' where "q' = (if 2 ^ e < 2 * r \<or> (2 * r = 2 ^ e \<and> odd q) then q + 1 else q)"
  have m0: "0 < m" using assms(1) by (simp add: order.strict_trans2 [of 0 "2 ^ 53"])
  have v: "v = q' * 2 ^ e"
    using assms by (auto simp: toDouble_def Let_def e_def q_def r_def q'_def split: if_splits)
  have m: "m = q * 2 ^ e + r"
    unfolding q_def r_def by (rule div_mult_mod_eq [symmetric])
  have r: "r < 2 ^ e"
    by (simp add: r_def)
  have b: "2 ^ (bitLength m - 1) \<le> m" "m < 2 ^ bitLength m"
    using bitLength_bounds [OF m0] by simp_all
  have len: "53 < bitLength m"
  proof (rule ccontr)
    assume "\<not> 53 < bitLength m"
    then have "(2::nat) ^ bitLength m \<le> 2 ^ 53" by (intro power_increasing) simp_all
    then show False using b(2) assms(1) by linarith
  qed
  have split: "bitLength m = e + 53" "bitLength m - 1 = e + 52"
    using len by (simp_all add: e_def)
  have "q < 2 ^ 53"
  proof -
    have "m < 2 ^ 53 * 2 ^ e" using b(2) by (simp add: split power_add mult.commute)
    then show ?thesis by (simp add: q_def less_mult_imp_div_less)
  qed
  moreover have "2 ^ 52 \<le> q"
  proof -
    have "2 ^ 52 * 2 ^ e \<le> m" using b(1) by (simp add: split power_add mult.commute)
    then have "2 ^ 52 * 2 ^ e div 2 ^ e \<le> m div 2 ^ e" by (rule div_le_mono)
    then show ?thesis by (simp add: q_def)
  qed
  ultimately have q: "2 ^ 52 \<le> q'" "q' \<le> 2 ^ 53"
    by (simp_all add: q'_def)
  define P where "P = (2::int) ^ e"
  define R where "R = int r"
  have c1: "(2 ^ e < 2 * r) = (P < 2 * R)"
    using of_nat_less_iff [of "2 ^ e" "2 * r", where ?'a = int] by (simp add: P_def R_def)
  have c2: "(2 * r = 2 ^ e) = (2 * R = P)"
    using of_nat_eq_iff [of "2 * r" "2 ^ e", where ?'a = int] by (simp add: P_def R_def)
  have R: "0 \<le> R" "R < P"
    using r of_nat_less_iff [of r "2 ^ e", where ?'a = int] by (simp_all add: P_def R_def)
  have d: "int v - int m = (int q' - int q) * P - R"
    by (simp add: v m algebra_simps P_def R_def)
  have near: "2 * \<bar>int v - int m\<bar> \<le> 2 ^ e"
    and tie: "2 * \<bar>int v - int m\<bar> = 2 ^ e \<longrightarrow> even q'"
  proof -
    show "2 * \<bar>int v - int m\<bar> \<le> 2 ^ e"
    proof (cases "2 ^ e < 2 * r \<or> (2 * r = 2 ^ e \<and> odd q)")
      case True
      then have "int q' - int q = 1" by (simp add: q'_def)
      moreover have "P \<le> 2 * R" using True c1 c2 by auto
      ultimately show ?thesis using R unfolding d by (simp add: P_def [symmetric])
    next
      case False
      then have "int q' - int q = 0" by (simp add: q'_def)
      moreover have "2 * R \<le> P" using False c1 by auto
      ultimately show ?thesis using R unfolding d by (simp add: P_def [symmetric])
    qed
    show "2 * \<bar>int v - int m\<bar> = 2 ^ e \<longrightarrow> even q'"
    proof (cases "2 ^ e < 2 * r \<or> (2 * r = 2 ^ e \<and> odd q)")
      case True
      then have q1: "q' = q + 1" by (simp add: q'_def)
      then have "int q' - int q = 1" by simp
      then have "int v - int m = P - R" unfolding d by simp
      moreover have "P \<le> 2 * R" using True c1 c2 by auto
      ultimately have "2 * \<bar>int v - int m\<bar> = P \<longrightarrow> 2 * R = P"
        using R by auto
      then have "2 * \<bar>int v - int m\<bar> = P \<longrightarrow> odd q"
        using True c1 c2 by auto
      then show ?thesis using q1 by (simp add: P_def)
    next
      case False
      then have q0: "q' = q" by (simp add: q'_def)
      then have "int v - int m = - R" unfolding d by simp
      then have "2 * \<bar>int v - int m\<bar> = P \<longrightarrow> 2 * R = P"
        using R by auto
      then have "2 * \<bar>int v - int m\<bar> = P \<longrightarrow> even q"
        using False c1 c2 by auto
      then show ?thesis using q0 by (simp add: P_def)
    qed
  qed
  show ?thesis
    using v q near tie unfolding e_def by blast
qed


lemma decimalDigits_props:
  "decimalDigits n \<noteq> [] \<and> list_all (\<lambda>d. d < 10) (decimalDigits n)
   \<and> mathInt 10 (decimalDigits n) = n \<and> (decimalDigits n = [0] \<longrightarrow> n = 0)"
proof (induction n rule: decimalDigits.induct)
  case (1 n)
  show ?case
  proof (cases "n < 10")
    case True
    then have "decimalDigits n = [n]" by (subst decimalDigits.simps) simp
    then show ?thesis using True by (simp add: mathInt_def)
  next
    case False
    then have dd: "decimalDigits n = decimalDigits (n div 10) @ [n mod 10]"
      by (subst decimalDigits.simps) simp
    have "mathInt 10 (decimalDigits n) = mathInt 10 (decimalDigits (n div 10)) * 10 + n mod 10"
      by (simp add: dd mathInt_def)
    then show ?thesis
      using "1.IH" [OF False] by (simp add: dd)
  qed
qed

lemma parseInt_decimal_px:
  "parseInt (decimal n @ utf16 ''px'') = numberValue 1 n"
  "parseInt (0x2D # decimal n @ utf16 ''px'') = numberValue (- 1) n"
proof -
  note p = decimalDigits_props [of n]
  have px: "utf16 ''px'' = [] \<or> digitValue 10 (hd (utf16 ''px'')) = None"
    by (simp add: utf16_def digitValue_def)
  have nox: "\<not> (decimalDigits n = [0] \<and> utf16 ''px'' \<noteq> []
               \<and> (hd (utf16 ''px'') = 0x78 \<or> hd (utf16 ''px'') = 0x58))"
    by (simp add: utf16_def)
  show "parseInt (decimal n @ utf16 ''px'') = numberValue 1 n"
    using parseInt_digits [of "[]" "[]" 1 "decimalDigits n" "utf16 ''px''"] p px nox
    by (simp add: decimal_def)
  show "parseInt (0x2D # decimal n @ utf16 ''px'') = numberValue (- 1) n"
    using parseInt_digits [of "[]" "[0x2D]" "- 1" "decimalDigits n" "utf16 ''px''"] p px nox
    by (simp add: decimal_def)
qed


lemma parseIntLeft_positional:
  assumes "x = 0 \<or> 1 / 10 ^ 6 \<le> \<bar>x\<bar>" and "\<bar>x\<bar> < 10 ^ 21"
  shows "parseIntLeft (Px x) = numberValue (if x < 0 then - 1 else 1) (nat \<lfloor>\<bar>x\<bar>\<rfloor>)"
proof (cases "x = 0")
  case True
  then show ?thesis by (simp add: numberValue_small)
next
  case False
  then show ?thesis using assms by simp
qed

lemma parseIntLeft_exact:
  assumes "x = 0 \<or> 1 / 10 ^ 6 \<le> \<bar>x\<bar>" and "\<bar>x\<bar> < 2 ^ 53"
  shows "parseIntLeft (Px x) = Num (real_of_int (truncPx x))"
proof -
  have "\<bar>x\<bar> < 10 ^ 21" using assms(2) by simp
  then have p: "parseIntLeft (Px x)
      = numberValue (if x < 0 then - 1 else 1) (nat \<lfloor>\<bar>x\<bar>\<rfloor>)"
    using assms(1) by (rule parseIntLeft_positional [rotated])
  have "\<lfloor>\<bar>x\<bar>\<rfloor> < 2 ^ 53"
    using assms(2) by (simp add: floor_less_iff)
  then have small: "nat \<lfloor>\<bar>x\<bar>\<rfloor> < 2 ^ 53"
    by (simp add: nat_less_iff)
  have "0 \<le> \<lfloor>\<bar>x\<bar>\<rfloor>" by simp
  then have "(if x < 0 then - 1 else 1) * int (nat \<lfloor>\<bar>x\<bar>\<rfloor>) = truncPx x"
    by (simp add: truncPx_def abs_if)
  then show ?thesis
    unfolding p numberValue_small [OF small] by simp
qed

lemma parseIntLeft_whole: "\<bar>z\<bar> < 2 ^ 53 \<Longrightarrow> parseIntLeft (Px (real_of_int z)) = Num (real_of_int z)"
proof -
  assume z: "\<bar>z\<bar> < 2 ^ 53"
  have t: "truncPx (real_of_int z) = z" by (simp add: truncPx_def)
  have "real_of_int z = 0 \<or> 1 / 10 ^ 6 \<le> \<bar>real_of_int z\<bar>"
  proof (cases "z = 0")
    case False
    then have "1 \<le> \<bar>z\<bar>" by linarith
    then have "real_of_int 1 \<le> real_of_int \<bar>z\<bar>" by (simp only: of_int_le_iff)
    then show ?thesis by simp
  qed simp
  moreover have "\<bar>real_of_int z\<bar> < 2 ^ 53"
    using z by (metis of_int_abs of_int_less_numeral_power_cancel_iff)
  ultimately show ?thesis using parseIntLeft_exact [of "real_of_int z"] t by simp
qed



text \<open>
  The two forms of an inline style agree: the text that renders a whole number of pixels
  below \<open>1e21\<close> parses to what \<open>Px\<close> of that number parses to.
\<close>

lemma parseIntLeft_whole_pixels:
  assumes "real n < 10 ^ 21"
  shows "parseIntLeft (Raw (decimal n @ utf16 ''px'')) = parseIntLeft (Px (real n))"
    and "parseIntLeft (Raw (0x2D # decimal n @ utf16 ''px'')) = parseIntLeft (Px (- real n))"
proof -
  have f: "nat \<lfloor>real n\<rfloor> = n" by simp
  have r: "real n = 0 \<or> 1 / 10 ^ 6 \<le> \<bar>real n\<bar>"
  proof (cases "n = 0")
    case False
    then have "1 \<le> real n" by simp
    then show ?thesis by simp
  qed simp
  show "parseIntLeft (Raw (decimal n @ utf16 ''px'')) = parseIntLeft (Px (real n))"
    using parseIntLeft_positional [of "real n"] r assms f
    by (simp add: parseInt_decimal_px del: parseIntLeft.simps(1))
  show "parseIntLeft (Raw (0x2D # decimal n @ utf16 ''px'')) = parseIntLeft (Px (- real n))"
  proof (cases "n = 0")
    case True
    then show ?thesis by (simp add: parseInt_decimal_px numberValue_small)
  next
    case False
    then have "- real n < 0" by simp
    then show ?thesis
      using parseIntLeft_positional [of "- real n"] r assms f
      by (simp add: parseInt_decimal_px del: parseIntLeft.simps(1))
  qed
qed


lemma numberValue_not_NaN [simp]: "numberValue sign m \<noteq> NaN"
  by (simp add: numberValue_def split: option.splits)

lemma getInnerLeft_eq: "parseIntLeft (inner_left s) = v \<Longrightarrow> v \<noteq> NaN \<Longrightarrow> getInnerLeft s = v"
  by (cases v) (simp_all add: getInnerLeft_def)


lemma getInnerLeft_Px:
  assumes "inner_left s = Px x" and "parseIntLeft (Px x) = v" and "v \<noteq> NaN"
  shows "getInnerLeft s = v"
proof -
  have "parseIntLeft (inner_left s) = v"
    unfolding assms(1) by (rule assms(2))
  then show ?thesis using assms(3) by (rule getInnerLeft_eq)
qed





subsection \<open>Where \<open>moveToSlide\<close> puts the track\<close>

text \<open>
  Under a stable layout \<open>moveToSlide k\<close> writes \<open>getInnerLeft\<close> minus the offset of slide
  \<open>k\<close>, and afterwards slide \<open>k\<close> is off the centre by the difference between
  \<open>getInnerLeft\<close> and the offset the track really had: by nothing when that offset was a
  whole number of pixels, by the fraction that \<open>parseInt\<close> dropped otherwise.
\<close>

lemma getSlideOffset_stable:
  assumes "stable L c" and "0 \<le> k" and "k < slideCount s"
    and "used_left (inner_left s) = Some x"
  shows "getSlideOffset L s k = Some (c (nat k) + x)"
proof -
  have "used_left (inner_left (dom_of s)) = Some x"
    using assms(4) by (simp add: dom_of_def)
  then show ?thesis
    using assms(1-3) by (simp add: getSlideOffset_def stable_def Let_def)
qed

lemma moveToSlide_stable:
  assumes "stable L c" and "0 \<le> k" and "k < slideCount s"
    and "used_left (inner_left s) = Some x" and "getInnerLeft s = Num g"
  shows "moveToSlide L k s
         = Done ((setActiveSlide k s)\<lparr>inner_left := Px (g - (c (nat k) + x))\<rparr>)"
    and "getSlideOffset L (state_of (moveToSlide L k s)) k = Some (g - x)"
proof -
  let ?s1 = "setActiveSlide k s"
  have ck: "clampSlide s k = k"
    using assms(2,3) by (rule clampSlide_in_range)
  have off: "getSlideOffset L ?s1 k = Some (c (nat k) + x)"
    using assms(1-4) by (intro getSlideOffset_stable) simp_all
  show res: "moveToSlide L k s
         = Done (?s1\<lparr>inner_left := Px (g - (c (nat k) + x))\<rparr>)"
    using off by (simp add: moveToSlide_def ck assms(5))
  have "getSlideOffset L (?s1\<lparr>inner_left := Px (g - (c (nat k) + x))\<rparr>) k
        = Some (c (nat k) + (g - (c (nat k) + x)))"
    using assms(1-3) by (intro getSlideOffset_stable) simp_all
  then show "getSlideOffset L (state_of (moveToSlide L k s)) k = Some (g - x)"
    by (simp add: res)
qed

lemma setActiveSlide_again:
  "setActiveSlide k ((setActiveSlide k s)\<lparr>inner_left := l\<rparr>)
     = (setActiveSlide k s)\<lparr>inner_left := l\<rparr>"
  by (simp add: setActiveSlide_def clampSlide_def slideCount_def setActiveSlide_loop_eq)

lemma getInnerLeft_whole:
  assumes "used_left (inner_left s) = Some (real_of_int z)" and "\<bar>z\<bar> < 2 ^ 53"
  shows "getInnerLeft s = Num (real_of_int z)"
proof (cases "inner_left s")
  case (Px x)
  then have "x = real_of_int z" using assms(1) by simp
  then have "parseIntLeft (Px x) = Num (real_of_int z)"
    using parseIntLeft_whole [OF assms(2)] by simp
  then show ?thesis
    using Px by (intro getInnerLeft_Px [of s x]) simp_all
next
  case (Raw t)
  then have "t = []" and "z = 0"
    using assms(1) by (simp_all split: if_splits)
  then show ?thesis
    using Raw by (simp add: getInnerLeft_def parseInt_def)
qed

lemma moveToSlide_centres_whole_pixels:
  assumes "stable L c" and "0 \<le> k" and "k < slideCount s"
    and "used_left (inner_left s) = Some (real_of_int z)" and "\<bar>z\<bar> < 2 ^ 53"
  shows "getSlideOffset L (state_of (moveToSlide L k s)) k = Some 0"
  using moveToSlide_stable(2) [OF assms(1-4) getInnerLeft_whole [OF assms(4,5)]] by simp

lemma moveToSlide_twice_whole_pixels:
  assumes "stable L c" and "0 \<le> k" and "k < slideCount s"
    and "used_left (inner_left s) = Some (real_of_int z)" and "\<bar>z\<bar> < 2 ^ 53"
    and "c (nat k) = real_of_int m" and "\<bar>m\<bar> < 2 ^ 53"
  shows "moveToSlide L k (state_of (moveToSlide L k s)) = moveToSlide L k s"
proof -
  let ?s1 = "setActiveSlide k s"
  have z: "getInnerLeft s = Num (real_of_int z)"
    using assms(4,5) by (rule getInnerLeft_whole)
  have one: "moveToSlide L k s = Done (?s1\<lparr>inner_left := Px (real_of_int (- m))\<rparr>)"
    using moveToSlide_stable(1) [OF assms(1-4) z] by (simp add: assms(6))
  let ?s2 = "?s1\<lparr>inner_left := Px (real_of_int (- m))\<rparr>"
  have g: "getInnerLeft ?s2 = Num (real_of_int (- m))"
    using assms(7) by (intro getInnerLeft_whole) simp_all
  have two: "moveToSlide L k ?s2
        = Done ((setActiveSlide k ?s2)\<lparr>inner_left :=
            Px (real_of_int (- m) - (c (nat k) + real_of_int (- m)))\<rparr>)"
    using assms(1-3) g by (intro moveToSlide_stable(1)) simp_all
  have same: "setActiveSlide k ?s2 = ?s2"
    by (rule setActiveSlide_again)
  show ?thesis
    unfolding one state_of.simps two same using assms(6) by simp
qed

text \<open>
  The row of slides is a stable layout. In a container of width 301 the centre is at
  150.5, so the slides are centred at half pixels: the constructor selects slide 1, and
  \<open>moveToSlide 0\<close> then leaves the track at 100.5 pixels. Both states are reachable.
\<close>

lemma stable_row_layout: "stable (row_layout w) (\<lambda>i. 100 * real i + 50 - w / 2)"
  by (simp add: stable_def row_layout_def)

lemma odd_width_reachable:
  "reachable (demo_slider (Raw []) 1)" and "reachable (demo_slider (Px (201 / 2)) 0)"
proof -
  have c: "constructor (row_layout 301) demo_document ''slider'' ''inner'' ''slide''
     = Done \<lparr>console = [], listeners = boundEvents, self = Some (demo_slider (Raw []) 1)\<rparr>"
    by (simp add: constructor_def demo_document_def run_defs)
  show r: "reachable (demo_slider (Raw []) 1)"
    by (rule reachable.constructed [OF c]) simp
  have "state_of (perform (row_layout 301) (MoveToSlide 0) (demo_slider (Raw []) 1))
          = demo_slider (Px (201 / 2)) 0"
    by (simp add: run_defs)
  then show "reachable (demo_slider (Px (201 / 2)) 0)"
    using reachable.performed [OF r, of "row_layout 301" "MoveToSlide 0"] by simp
qed

text \<open>
  Claim C7 says that under a stable layout slide \<open>k\<close> is exactly centred right after
  \<open>moveToSlide k\<close>. The code misses it when the track stands at a fraction of a pixel:
  with the track at 100.5 pixels in the container of width 301, slide 0 is centred;
  \<open>moveToSlide 0\<close> reads the offset as 100, writes 100, and slide 0 is then half a
  pixel left of the centre.
\<close>

theorem moveToSlide_off_centre_odd_width:
  "getSlideOffset (row_layout 301) (demo_slider (Px (201 / 2)) 0) 0 = Some 0
   \<and> moveToSlide (row_layout 301) 0 (demo_slider (Px (201 / 2)) 0)
     = Done (demo_slider (Px 100) 0)
   \<and> getSlideOffset (row_layout 301) (demo_slider (Px 100) 0) 0 = Some (- 1 / 2)"
  by (simp add: run_defs)

text \<open>
  Claim C6 says that under a stable layout two calls of \<open>moveToSlide k\<close> in a row leave
  the track where one call leaves it. In the container of width 301 they do not: the
  first call puts the track at 100.5 pixels, the second at 100.
\<close>

theorem moveToSlide_twice_odd_width:
  "moveToSlide (row_layout 301) 0 (demo_slider (Raw []) 1)
     = Done (demo_slider (Px (201 / 2)) 0)
   \<and> moveToSlide (row_layout 301) 0 (demo_slider (Px (201 / 2)) 0)
     = Done (demo_slider (Px 100) 0)"
  by (simp add: run_defs)

subsection \<open>The end of a gesture\<close>

text \<open>
  \<open>onEnd\<close> removes the engagement marker and nothing else when the active index is the
  one recorded at the start and is neither the first nor the last slide; in every other
  case it goes on with \<open>moveToActiveSlide\<close>.
\<close>

lemma onEnd_branches:
  "onEnd L s =
     (if startSlide s = activeSlide s \<and> activeSlide s \<noteq> Some 0
          \<and> activeSlide s \<noteq> Some (slideCount s - 1)
      then Done (s\<lparr>elem_active := False\<rparr>)
      else moveToActiveSlide L (s\<lparr>elem_active := False\<rparr>))"
  by (simp add: onEnd_def Let_def)

text \<open>
  Claim C4 says that \<open>onEnd\<close> leaves the track alone in the first case and in every other
  case snaps it so that the active slide is exactly centred. The first half holds
  (\<open>onEnd_branches\<close>); the snap misses the centre when the track stands at a fraction of a
  pixel. With the track at 100.5 pixels in the container of width 301 and slide 0 active
  and centred, pressing and releasing the mouse leaves the track at 100 pixels and
  slide 0 half a pixel off the centre.
\<close>

theorem onEnd_snap_off_centre:
  "onStart (mouse_at 100) (demo_slider (Px (201 / 2)) 0)
     = Done ((demo_slider (Px (201 / 2)) 0)
         \<lparr>elem_active := True, startSlide := Some 0, startX := Some 100\<rparr>)
   \<and> onEnd (row_layout 301) ((demo_slider (Px (201 / 2)) 0)
         \<lparr>elem_active := True, startSlide := Some 0, startX := Some 100\<rparr>)
     = Done ((demo_slider (Px 100) 0)\<lparr>startSlide := Some 0, startX := Some 100\<rparr>)
   \<and> getSlideOffset (row_layout 301)
         ((demo_slider (Px 100) 0)\<lparr>startSlide := Some 0, startX := Some 100\<rparr>) 0
     = Some (- 1 / 2)"
  by (simp add: run_defs)

theorem onEnd_snap_off_centre_witness:
  "onEnd (row_layout 301) ((demo_slider (Px (201 / 2)) 0)
         \<lparr>elem_active := True, startSlide := Some 0, startX := Some 100\<rparr>)
     = Done ((demo_slider (Px 100) 0)\<lparr>startSlide := Some 0, startX := Some 100\<rparr>)"
  by (rule conjunct1 [OF conjunct2 [OF onEnd_snap_off_centre]])

subsection \<open>The moves of a gesture\<close>

text \<open>
  On an engaged slider a move whose event yields a pointer position returns normally;
  it records the position and writes \<open>getInnerLeft\<close> plus the distance from the position
  recorded before, followed by \<open>px\<close>.
\<close>

lemma onMove_step:
  assumes "elem_active s" and "pointerX e = Some pos"
  shows "\<exists>a. onMove L e s
           = Done (setActiveSlide a
               (s\<lparr>startX := Some pos,
                  inner_left := toPx (jsPlus (getInnerLeft s)
                    (pos - (case startX s of None \<Rightarrow> 0 | Some x \<Rightarrow> x)))\<rparr>))"
proof -
  let ?s2 = "s\<lparr>startX := Some pos,
                  inner_left := toPx (jsPlus (getInnerLeft s)
                    (pos - (case startX s of None \<Rightarrow> 0 | Some x \<Rightarrow> x)))\<rparr>"
  obtain a where a: "getActiveSlide L ?s2 = Some a"
    using getActiveSlide_total [of L ?s2] by blast
  have "getInnerLeft (s\<lparr>startX := Some pos\<rparr>) = getInnerLeft s"
    by (simp add: getInnerLeft_def)
  then have "onMove L e s = Done (setActiveSlide a ?s2)"
    using assms a by (simp add: onMove_def Let_def)
  then show ?thesis by blast
qed

text \<open>
  Claim C8 says that each move adds to the track offset the distance from the last
  recorded position, so that a gesture from 100 over 150 to 130 moves the track by 50 and
  then back by 20. The code adds the distance to \<open>getInnerLeft\<close>, which has lost the
  fraction of the offset. With the track at 100.5 pixels that gesture leaves it at 150
  and then at 130: it moved by 49.5 and then by 20. A touch that starts at 100 on a track
  at 0 and moves to 100.5 and to 101 leaves the track at 0.5 both times. And a mouse
  move at page position 0 throws, since \<open>pageX\<close> is falsy there, and moves nothing.
\<close>

theorem onMove_truncates_track_offset:
  "inner_left (state_of (onMove (row_layout 301) (mouse_at 150)
       (state_of (onStart (mouse_at 100) (demo_slider (Px (201 / 2)) 0))))) = Px 150
   \<and> inner_left (state_of (onMove (row_layout 301) (mouse_at 130)
       (state_of (onMove (row_layout 301) (mouse_at 150)
         (state_of (onStart (mouse_at 100) (demo_slider (Px (201 / 2)) 0))))))) = Px 130
   \<and> inner_left (state_of (onMove (row_layout 301) (touch_at (201 / 2))
       (state_of (onStart (touch_at 100) (demo_slider (Raw []) 1))))) = Px (1 / 2)
   \<and> inner_left (state_of (onMove (row_layout 301) (touch_at 101)
       (state_of (onMove (row_layout 301) (touch_at (201 / 2))
         (state_of (onStart (touch_at 100) (demo_slider (Raw []) 1))))))) = Px (1 / 2)
   \<and> onMove (row_layout 301) (mouse_at 0)
       (state_of (onStart (mouse_at 100) (demo_slider (Raw []) 1)))
     = TypeError (state_of (onStart (mouse_at 100) (demo_slider (Raw []) 1)))"
  by (simp add: run_defs)

subsection \<open>The slide that \<open>getActiveSlide\<close> returns\<close>

text \<open>
  The loop compares each slide with the slide before it, not with the best one so far.
  When the centres of the slides are in order from left to right, as in a single row,
  that makes no difference: the result is the nearest slide, and the first of the
  nearest.
\<close>

lemma getActiveSlide_loop_in_order:
  assumes "\<forall>j. 0 \<le> j \<and> j < slideCount s \<longrightarrow> getSlideOffset L s j = Some (off j)"
    and "\<forall>j k. 0 \<le> j \<and> j \<le> k \<and> k < slideCount s \<longrightarrow> off j \<le> off k"
    and "1 \<le> i" and "i \<le> slideCount s" and "nearest_first off i res"
  shows "\<exists>r. getActiveSlide_loop L s i res = Some r \<and> nearest_first off (slideCount s) r"
  using assms
proof (induction L s i res rule: getActiveSlide_loop.induct)
  case (1 L s i res)
  note offs = "1.prems"(1) and mono = "1.prems"(2) and i1 = "1.prems"(3)
    and near = "1.prems"(5)
  show ?case
  proof (cases "i < slideCount s")
    case False
    then have "i = slideCount s" using "1.prems"(4) by simp
    then show ?thesis
      using near by (subst getActiveSlide_loop.simps) simp
  next
    case True
    let ?a = "off i" and ?b = "off (i - 1)"
    have a: "getSlideOffset L s i = Some ?a"
      using offs True i1 by simp
    have b: "getSlideOffset L s (i - 1) = Some ?b"
      using offs True i1 by simp
    let ?res = "if \<bar>?a\<bar> < \<bar>?b\<bar> then i else res"
    have step: "getActiveSlide_loop L s i res = getActiveSlide_loop L s (i + 1) ?res"
      using True a b by (subst getActiveSlide_loop.simps) simp
    have res: "0 \<le> res" "res < i" "\<forall>j. 0 \<le> j \<and> j < i \<longrightarrow> \<bar>off res\<bar> \<le> \<bar>off j\<bar>"
      "\<forall>j. 0 \<le> j \<and> j < res \<longrightarrow> \<bar>off res\<bar> < \<bar>off j\<bar>"
      using near by (simp_all add: nearest_first_def)
    have near': "nearest_first off (i + 1) ?res"
    proof (cases "\<bar>?a\<bar> < \<bar>?b\<bar>")
      case True
      have ab: "?b \<le> ?a"
        using mono \<open>i < slideCount s\<close> i1 by simp
      then have b0: "?b < 0" using True by linarith
      have before: "\<bar>?a\<bar> < \<bar>off j\<bar>" if "0 \<le> j" "j < i" for j
      proof -
        have "off j \<le> ?b"
          using mono that \<open>i < slideCount s\<close> by simp
        then show ?thesis using b0 True by linarith
      qed
      have "\<bar>?a\<bar> \<le> \<bar>off j\<bar>" if "0 \<le> j" "j < i + 1" for j
        using before [of j] that by (cases "j = i") auto
      then show ?thesis
        using True before i1 by (simp add: nearest_first_def)
    next
      case False
      have "\<bar>off res\<bar> \<le> \<bar>?b\<bar>"
        using res(3) i1 by simp
      then have "\<bar>off res\<bar> \<le> \<bar>?a\<bar>" using False by linarith
      then have "\<bar>off res\<bar> \<le> \<bar>off j\<bar>" if "0 \<le> j" "j < i + 1" for j
        using res(3) that by (cases "j = i") auto
      then show ?thesis
        using False res by (simp add: nearest_first_def)
    qed
    have "\<exists>r. getActiveSlide_loop L s (i + 1) ?res = Some r
            \<and> nearest_first off (slideCount s) r"
      using "1.IH" [OF True a b offs mono _ _ near'] True i1 by simp
    then show ?thesis by (simp only: step)
  qed
qed

lemma getActiveSlide_in_order:
  assumes "0 < slideCount s"
    and "\<forall>j. 0 \<le> j \<and> j < slideCount s \<longrightarrow> getSlideOffset L s j = Some (off j)"
    and "\<forall>j k. 0 \<le> j \<and> j \<le> k \<and> k < slideCount s \<longrightarrow> off j \<le> off k"
  shows "\<exists>r. getActiveSlide L s = Some r \<and> nearest_first off (slideCount s) r"
proof -
  have "\<bar>off 0\<bar> \<le> \<bar>off j\<bar>" if "0 \<le> j \<and> j < 1" for j :: int
  proof -
    from that have "j = 0" by linarith
    then show ?thesis by simp
  qed
  then have "nearest_first off 1 0"
    unfolding nearest_first_def by simp
  then show ?thesis
    unfolding getActiveSlide_def
    using getActiveSlide_loop_in_order [OF assms(2,3), of 1 0] assms(1) by simp
qed

text \<open>
  Claim C1 says that for every layout \<open>getActiveSlide\<close> returns the index of the slide
  nearest the centre of the container, the lowest on ties. When the centres are not in
  order it need not: with five slides wrapped onto two rows, slide 1 is at the centre,
  and the loop returns slide 4, which is 30 pixels off, because slide 4 is nearer than
  slide 3.
\<close>

theorem getActiveSlide_wrapped_rows:
  "getActiveSlide wrapped_layout wrapped_slider = Some 4
   \<and> getSlideOffset wrapped_layout wrapped_slider 1 = Some 0
   \<and> getSlideOffset wrapped_layout wrapped_slider 4 = Some 30"
  by (simp add: run_defs)

end
